theory Spec2Isabelle
  imports Main "HOL-Library.AList" "HOL-Library.Multiset"
begin

section \<open>The key-value store behind \<^verbatim>\<open>redis_client\<close>\<close>

text \<open>
  \<^verbatim>\<open>app/main.py\<close> keeps no state of its own: every handler talks to the module-level
  \<^verbatim>\<open>redis_client\<close>. The store is therefore passed to every handler and returned by it.

  A stored value is a Redis hash, a field map from field names to values (a \<open>dict\<close>).
  The keyspace is an association list from keys to hashes: the order of the list is the
  order in which \<^verbatim>\<open>KEYS\<close> enumerates, which Redis leaves open, so no theorem below
  depends on it. Lookups go through \<open>map_of\<close>.

  The client encodes every \<^verbatim>\<open>str\<close> it sends as UTF-8 and the handlers decode what they
  read with \<^verbatim>\<open>.decode('utf-8')\<close>; the two are inverse on the strings the service writes,
  so stored and decoded strings share the type \<open>string\<close> and the dict comprehension of
  \<^verbatim>\<open>get_user\<close> and \<^verbatim>\<open>get_all_users\<close> is the identity on the field map.
\<close>

type_synonym dict = "string \<rightharpoonup> string"

type_synonym redis = "(string \<times> dict) list"

text \<open>\<^verbatim>\<open>EXISTS key\<close>: the number of the given keys that exist, here 0 or 1.\<close>

definition redis_exists :: "redis \<Rightarrow> string \<Rightarrow> nat" where
  "redis_exists s key = (case map_of s key of None \<Rightarrow> 0 | Some h \<Rightarrow> 1)"

text \<open>
  \<^verbatim>\<open>HGETALL key\<close>: the field map stored at the key, the empty map when the key is absent.
\<close>

definition redis_hgetall :: "redis \<Rightarrow> string \<Rightarrow> dict" where
  "redis_hgetall s key = (case map_of s key of None \<Rightarrow> Map.empty | Some h \<Rightarrow> h)"

text \<open>
  \<^verbatim>\<open>HSET key field value [field value ...]\<close>: sets the given fields in the hash stored at
  the key and creates the hash when the key is absent. Fields of the stored hash that the
  call does not name keep their values. The handlers discard the integer reply.
\<close>

definition redis_hset :: "redis \<Rightarrow> string \<Rightarrow> dict \<Rightarrow> redis" where
  "redis_hset s key mapping = AList.update key (redis_hgetall s key ++ mapping) s"

text \<open>\<^verbatim>\<open>DEL key\<close>: removes the key and replies with the number of keys removed.\<close>

definition redis_delete :: "redis \<Rightarrow> string \<Rightarrow> nat \<times> redis" where
  "redis_delete s key = (redis_exists s key, AList.delete key s)"

text \<open>
  \<^verbatim>\<open>KEYS pattern\<close> matches every key against a glob pattern. Of the glob language,
  \<open>*\<close> (any run of characters), \<open>?\<close> (any one character) and literal characters are
  modelled; the only pattern the service sends is \<^verbatim>\<open>user:*\<close>.
\<close>

fun stringmatch :: "string \<Rightarrow> string \<Rightarrow> bool" where
  "stringmatch [] str = (str = [])"
| "stringmatch (p # ps) [] = (p = CHR ''*'' \<and> stringmatch ps [])"
| "stringmatch (p # ps) (c # cs) =
     (if p = CHR ''*'' then stringmatch ps (c # cs) \<or> stringmatch (p # ps) cs
      else (p = CHR ''?'' \<or> p = c) \<and> stringmatch ps cs)"

definition redis_keys :: "redis \<Rightarrow> string \<Rightarrow> string list" where
  "redis_keys s pattern = filter (stringmatch pattern) (map fst s)"

section \<open>The request handlers of \<^verbatim>\<open>app/main.py\<close>\<close>

text \<open>\<^verbatim>\<open>class User(BaseModel)\<close>: the validated request body.\<close>

record user =
  name :: string
  email :: string

text \<open>\<^verbatim>\<open>raise HTTPException(status_code=..., detail=...)\<close> is the left injection.\<close>

datatype http_exception = HTTPException (status_code: nat) (detail: string)

type_synonym 'a response = "(http_exception + 'a) \<times> redis"

definition read_root :: "redis \<Rightarrow> dict response" where
  "read_root s = (Inr [''message'' \<mapsto> ''Welcome to the Redis API''], s)"

definition create_user :: "redis \<Rightarrow> user \<Rightarrow> dict response" where
  "create_user s usr =
     (let user_key = ''user:'' @ email usr in
      if redis_exists s user_key \<noteq> 0
      then (Inl (HTTPException 400 ''User already exists''), s)
      else (Inr [''message'' \<mapsto> ''User created successfully''],
            redis_hset s user_key [''name'' \<mapsto> name usr, ''email'' \<mapsto> email usr]))"

definition get_user :: "redis \<Rightarrow> string \<Rightarrow> dict response" where
  "get_user s eml =
     (let user_key = ''user:'' @ eml in
      if \<not> (redis_exists s user_key \<noteq> 0)
      then (Inl (HTTPException 404 ''User not found''), s)
      else (Inr (redis_hgetall s user_key), s))"

definition update_user :: "redis \<Rightarrow> string \<Rightarrow> user \<Rightarrow> dict response" where
  "update_user s eml usr =
     (let user_key = ''user:'' @ eml in
      if \<not> (redis_exists s user_key \<noteq> 0)
      then (Inl (HTTPException 404 ''User not found''), s)
      else (Inr [''message'' \<mapsto> ''User updated successfully''],
            redis_hset s user_key [''name'' \<mapsto> name usr, ''email'' \<mapsto> email usr]))"

definition delete_user :: "redis \<Rightarrow> string \<Rightarrow> dict response" where
  "delete_user s eml =
     (let user_key = ''user:'' @ eml;
          (result, s') = redis_delete s user_key in
      if \<not> (result \<noteq> 0)
      then (Inl (HTTPException 404 ''User not found''), s')
      else (Inr [''message'' \<mapsto> ''User deleted successfully''], s'))"

text \<open>
  The loop of \<^verbatim>\<open>get_all_users\<close>: one \<^verbatim>\<open>HGETALL\<close> per key, the decoded field map
  appended to \<open>users\<close>.
\<close>

fun collect_users :: "redis \<Rightarrow> string list \<Rightarrow> dict list \<Rightarrow> dict list" where
  "collect_users s [] users = users"
| "collect_users s (key # keys) users = collect_users s keys (users @ [redis_hgetall s key])"

text \<open>The reply \<^verbatim>\<open>{"users": users}\<close> is represented by the list \<open>users\<close>.\<close>

definition get_all_users :: "redis \<Rightarrow> (dict list) response" where
  "get_all_users s =
     (let keys = redis_keys s ''user:*'';
          users = collect_users s keys []
      in (Inr users, s))"

section \<open>Sequences of requests\<close>

text \<open>
  The six routes of the service. \<open>handle\<close> is the store a request leaves behind, whether
  the handler returned or raised; \<open>run\<close> serves a list of requests one after another.
\<close>

datatype request =
    Read_root
  | Create_user user
  | Get_user string
  | Update_user string user
  | Delete_user string
  | Get_all_users

fun handle :: "redis \<Rightarrow> request \<Rightarrow> redis" where
  "handle s Read_root = snd (read_root s)"
| "handle s (Create_user usr) = snd (create_user s usr)"
| "handle s (Get_user eml) = snd (get_user s eml)"
| "handle s (Update_user eml usr) = snd (update_user s eml usr)"
| "handle s (Delete_user eml) = snd (delete_user s eml)"
| "handle s Get_all_users = snd (get_all_users s)"

definition run :: "redis \<Rightarrow> request list \<Rightarrow> redis" where
  "run s reqs = foldl handle s reqs"

text \<open>\<open>POST /users/\<close> once per user of a list, with every reply.\<close>

fun create_users :: "redis \<Rightarrow> user list \<Rightarrow> (http_exception + dict) list \<times> redis" where
  "create_users s [] = ([], s)"
| "create_users s (usr # usrs) =
     (let (r, s') = create_user s usr;
          (rs, s'') = create_users s' usrs
      in (r # rs, s''))"

section \<open>The vocabulary of the properties\<close>

text \<open>The two error kinds the handlers raise: 404 and 400.\<close>

definition not_found :: "http_exception + 'a \<Rightarrow> bool" where
  "not_found r = (case r of Inl x \<Rightarrow> status_code x = 404 | Inr v \<Rightarrow> False)"

definition conflict :: "http_exception + 'a \<Rightarrow> bool" where
  "conflict r = (case r of Inl x \<Rightarrow> status_code x = 400 | Inr v \<Rightarrow> False)"

text \<open>The field map \<^verbatim>\<open>{"name": user.name, "email": user.email}\<close> of a user.\<close>

definition field_map :: "user \<Rightarrow> dict" where
  "field_map usr = [''name'' \<mapsto> name usr, ''email'' \<mapsto> email usr]"

text \<open>
  Every stored record has an \<open>email\<close> field and lies under the key \<open>user:\<close> followed by
  the value of that field.
\<close>

definition keyed_by_email :: "redis \<Rightarrow> bool" where
  "keyed_by_email s =
     list_all (\<lambda>(key, h). case h ''email'' of None \<Rightarrow> False | Some e \<Rightarrow> key = ''user:'' @ e) s"

text \<open>The email values of the stored records, one entry per record that has the field.\<close>

definition stored_emails :: "redis \<Rightarrow> string list" where
  "stored_emails s = List.map_filter (\<lambda>(key, h). h ''email'') s"

definition one_record_per_email :: "redis \<Rightarrow> bool" where
  "one_record_per_email s = distinct (stored_emails s)"

text \<open>A \<open>PUT /users/{email}\<close> whose body carries the email of its path.\<close>

fun same_email :: "request \<Rightarrow> bool" where
  "same_email (Update_user eml usr) = (eml = email usr)"
| "same_email req = True"

section \<open>Facts about the store commands\<close>

lemma redis_exists_0 [simp]: "redis_exists s key = 0 \<longleftrightarrow> map_of s key = None"
  by (simp add: redis_exists_def split: option.split)

lemma map_of_redis_hset:
  "map_of (redis_hset s key m) = (map_of s)(key \<mapsto> redis_hgetall s key ++ m)"
  by (simp add: redis_hset_def update_conv')

lemma update_absent: "map_of s key = None \<Longrightarrow> AList.update key v s = s @ [(key, v)]"
  by (induction s) (auto split: if_splits)

lemma delete_absent: "map_of s key = None \<Longrightarrow> AList.delete key s = s"
  by (induction s) (auto split: if_splits)

lemma redis_hset_absent: "map_of s key = None \<Longrightarrow> redis_hset s key m = s @ [(key, m)]"
  by (simp add: redis_hset_def redis_hgetall_def update_absent)

lemma list_all_update: "list_all P s \<Longrightarrow> P (k, v) \<Longrightarrow> list_all P (AList.update k v s)"
  by (induction s) auto

lemma list_all_delete: "list_all P s \<Longrightarrow> list_all P (AList.delete k s)"
  by (induction s) auto

text \<open>The loop of \<open>get_all_users\<close> appends one field map per key, in the order of the keys.\<close>

lemma collect_users_map: "collect_users s keys users = users @ map (redis_hgetall s) keys"
  by (induction keys arbitrary: users) auto

text \<open>The pattern \<^verbatim>\<open>user:*\<close> matches exactly the keys that start with \<open>user:\<close>.\<close>

lemma stringmatch_star [simp]: "stringmatch ''*'' str"
  by (induction str) auto

lemma stringmatch_user: "stringmatch ''user:*'' key \<longleftrightarrow> (\<exists>e. key = ''user:'' @ e)"
proof (cases key)
  case Nil
  then show ?thesis by simp
next
  case k1: (Cons c1 r1)
  show ?thesis
  proof (cases r1)
    case Nil
    with k1 show ?thesis by simp
  next
    case k2: (Cons c2 r2)
    show ?thesis
    proof (cases r2)
      case Nil
      with k1 k2 show ?thesis by simp
    next
      case k3: (Cons c3 r3)
      show ?thesis
      proof (cases r3)
        case Nil
        with k1 k2 k3 show ?thesis by simp
      next
        case k4: (Cons c4 r4)
        show ?thesis
        proof (cases r4)
          case Nil
          with k1 k2 k3 k4 show ?thesis by simp
        next
          case (Cons c5 r5)
          with k1 k2 k3 k4 show ?thesis by auto
        qed
      qed
    qed
  qed
qed

lemma no_user_keys_absent:
  assumes "redis_keys s ''user:*'' = []"
  shows "map_of s (''user:'' @ e) = None"
proof (rule ccontr)
  assume "map_of s (''user:'' @ e) \<noteq> None"
  then obtain h where "(''user:'' @ e, h) \<in> set s"
    by (auto dest: map_of_SomeD)
  then have "''user:'' @ e \<in> set (map fst s)"
    by force
  moreover have "stringmatch ''user:*'' (''user:'' @ e)"
    unfolding stringmatch_user by blast
  ultimately have "''user:'' @ e \<in> set (redis_keys s ''user:*'')"
    unfolding redis_keys_def by simp
  with assms show False by simp
qed

section \<open>Round trip\<close>

text \<open>
  Claim C1. In every store state in which the key \<open>user:e\<close> is absent, creating the user
  \<open>(n, e)\<close> succeeds, and getting the user \<open>e\<close> from the resulting store succeeds and
  returns the field map \<open>{name: n, email: e}\<close>.
\<close>

theorem create_then_get:
  assumes "map_of s (''user:'' @ e) = None"
  shows "fst (create_user s \<lparr>name = n, email = e\<rparr>) = Inr [''message'' \<mapsto> ''User created successfully'']
       \<and> fst (get_user (snd (create_user s \<lparr>name = n, email = e\<rparr>)) e) = Inr [''name'' \<mapsto> n, ''email'' \<mapsto> e]"
  using assms
  by (simp add: Let_def create_user_def get_user_def map_of_redis_hset redis_hgetall_def)

theorem create_then_get_witness:
  "map_of [] (''user:'' @ ''ann@x.com'') = None
   \<and> fst (get_user (snd (create_user [] \<lparr>name = ''Ann'', email = ''ann@x.com''\<rparr>)) ''ann@x.com'')
       = Inr [''name'' \<mapsto> ''Ann'', ''email'' \<mapsto> ''ann@x.com'']"
  using create_then_get [of "[]" "''ann@x.com''" "''Ann''"] by simp

section \<open>Errors\<close>

text \<open>
  Claim C3. For every email \<open>e\<close> and every store, each of get, update and delete raises
  the not-found error exactly when the key \<open>user:e\<close> is absent from the store at the call.
\<close>

theorem not_found_iff_absent:
  "(not_found (fst (get_user s e)) \<longleftrightarrow> map_of s (''user:'' @ e) = None)
   \<and> (not_found (fst (update_user s e usr)) \<longleftrightarrow> map_of s (''user:'' @ e) = None)
   \<and> (not_found (fst (delete_user s e)) \<longleftrightarrow> map_of s (''user:'' @ e) = None)"
  by (simp add: Let_def not_found_def get_user_def update_user_def delete_user_def redis_delete_def)

theorem not_found_iff_absent_witness:
  "not_found (fst (get_user [] ''ann@x.com''))
   \<and> not_found (fst (update_user [] ''ann@x.com'' \<lparr>name = ''Ann'', email = ''ann@x.com''\<rparr>))
   \<and> not_found (fst (delete_user [] ''ann@x.com''))"
  using not_found_iff_absent [of "[]" "''ann@x.com''" "\<lparr>name = ''Ann'', email = ''ann@x.com''\<rparr>"]
  by simp

text \<open>
  Claim C4. Creating a user raises the conflict error exactly when the key \<open>user:e\<close> of
  its email already exists; and in every state, creating a user with email \<open>e\<close> and then
  creating again with the same email yields a conflict on the second call.
\<close>

theorem conflict_iff_present:
  "(conflict (fst (create_user s usr)) \<longleftrightarrow> map_of s (''user:'' @ email usr) \<noteq> None)
   \<and> conflict (fst (create_user (snd (create_user s \<lparr>name = n, email = e\<rparr>)) \<lparr>name = n', email = e\<rparr>))"
  by (simp add: Let_def conflict_def create_user_def map_of_redis_hset)

theorem conflict_iff_present_witness:
  "\<not> conflict (fst (create_user [] \<lparr>name = ''Ann'', email = ''ann@x.com''\<rparr>))
   \<and> conflict (fst (create_user (snd (create_user [] \<lparr>name = ''Ann'', email = ''ann@x.com''\<rparr>))
         \<lparr>name = ''Anna'', email = ''ann@x.com''\<rparr>))"
  using conflict_iff_present [of "[]" "\<lparr>name = ''Ann'', email = ''ann@x.com''\<rparr>"
      "''Ann''" "''ann@x.com''" "''Anna''"]
  by simp

text \<open>
  Claim C10. Whenever a handler ends with an error (the conflict of create, the not-found
  of get, update or delete), the store after the call is the store before it.
\<close>

theorem error_leaves_store:
  "(isl (fst (create_user s usr)) \<longrightarrow> snd (create_user s usr) = s)
   \<and> (isl (fst (get_user s e)) \<longrightarrow> snd (get_user s e) = s)
   \<and> (isl (fst (update_user s e usr)) \<longrightarrow> snd (update_user s e usr) = s)
   \<and> (isl (fst (delete_user s e)) \<longrightarrow> snd (delete_user s e) = s)"
  by (simp add: Let_def create_user_def update_user_def delete_user_def get_user_def
        redis_delete_def delete_absent)

theorem error_leaves_store_witness:
  "conflict (fst (create_user [(''user:ann@x.com'', [''name'' \<mapsto> ''Ann'', ''email'' \<mapsto> ''ann@x.com''])]
       \<lparr>name = ''Anna'', email = ''ann@x.com''\<rparr>))
   \<and> snd (create_user [(''user:ann@x.com'', [''name'' \<mapsto> ''Ann'', ''email'' \<mapsto> ''ann@x.com''])]
       \<lparr>name = ''Anna'', email = ''ann@x.com''\<rparr>)
       = [(''user:ann@x.com'', [''name'' \<mapsto> ''Ann'', ''email'' \<mapsto> ''ann@x.com''])]
   \<and> not_found (fst (delete_user [(''user:ann@x.com'', [''name'' \<mapsto> ''Ann'', ''email'' \<mapsto> ''ann@x.com''])]
       ''bob@x.com''))
   \<and> snd (delete_user [(''user:ann@x.com'', [''name'' \<mapsto> ''Ann'', ''email'' \<mapsto> ''ann@x.com''])]
       ''bob@x.com'')
       = [(''user:ann@x.com'', [''name'' \<mapsto> ''Ann'', ''email'' \<mapsto> ''ann@x.com''])]"
proof -
  let ?s = "[(''user:ann@x.com'', [''name'' \<mapsto> ''Ann'', ''email'' \<mapsto> ''ann@x.com''])]"
  have c: "conflict (fst (create_user ?s \<lparr>name = ''Anna'', email = ''ann@x.com''\<rparr>))"
    by (simp add: Let_def conflict_def create_user_def)
  have d: "not_found (fst (delete_user ?s ''bob@x.com''))"
    by (simp add: Let_def not_found_def delete_user_def redis_delete_def)
  from c have "isl (fst (create_user ?s \<lparr>name = ''Anna'', email = ''ann@x.com''\<rparr>))"
    by (simp add: conflict_def split: sum.splits)
  moreover from d have "isl (fst (delete_user ?s ''bob@x.com''))"
    by (simp add: not_found_def split: sum.splits)
  ultimately show ?thesis
    using c d error_leaves_store [of ?s "\<lparr>name = ''Anna'', email = ''ann@x.com''\<rparr>" "''bob@x.com''"]
    by blast
qed

section \<open>Update and delete\<close>

text \<open>
  What \<open>update_user\<close> leaves under the key: the stored field map with the two fields of
  the body written over it.
\<close>

lemma update_user_stored:
  assumes "map_of s (''user:'' @ e) = Some h"
  shows "map_of (snd (update_user s e usr)) (''user:'' @ e) = Some (h ++ field_map usr)"
  using assms
  by (simp add: Let_def update_user_def map_of_redis_hset redis_hgetall_def field_map_def)

lemma overwrite_both_fields:
  assumes "dom h \<subseteq> {''name'', ''email''}"
  shows "h ++ field_map usr = field_map usr"
proof
  fix f
  show "(h ++ field_map usr) f = field_map usr f"
    using assms
    by (cases "f = ''name'' \<or> f = ''email''") (auto simp: field_map_def map_add_def domIff)
qed

text \<open>
  Claim C5, amended. In every state in which the key \<open>user:e\<close> exists and the record
  stored there has no field other than \<open>name\<close> and \<open>email\<close>, after an update on path
  email \<open>e\<close> with body \<open>(n', e')\<close> the field map stored under \<open>user:e\<close> is exactly
  \<open>{name: n', email: e'}\<close>.
\<close>

theorem update_overwrites:
  assumes "map_of s (''user:'' @ e) = Some h" and "dom h \<subseteq> {''name'', ''email''}"
  shows "map_of (snd (update_user s e \<lparr>name = n', email = e'\<rparr>)) (''user:'' @ e)
           = Some [''name'' \<mapsto> n', ''email'' \<mapsto> e']"
  using update_user_stored [OF assms(1), of "\<lparr>name = n', email = e'\<rparr>"]
    overwrite_both_fields [OF assms(2), of "\<lparr>name = n', email = e'\<rparr>"]
  by (simp add: field_map_def)

theorem update_overwrites_witness:
  "map_of [(''user:ann@x.com'', [''name'' \<mapsto> ''Ann'', ''email'' \<mapsto> ''ann@x.com''])] (''user:'' @ ''ann@x.com'')
     = Some [''name'' \<mapsto> ''Ann'', ''email'' \<mapsto> ''ann@x.com'']
   \<and> dom [''name'' \<mapsto> ''Ann'', ''email'' \<mapsto> ''ann@x.com''] \<subseteq> {''name'', ''email''}
   \<and> map_of (snd (update_user [(''user:ann@x.com'', [''name'' \<mapsto> ''Ann'', ''email'' \<mapsto> ''ann@x.com''])]
         ''ann@x.com'' \<lparr>name = ''Anna'', email = ''anna@x.com''\<rparr>)) (''user:'' @ ''ann@x.com'')
       = Some [''name'' \<mapsto> ''Anna'', ''email'' \<mapsto> ''anna@x.com'']"
proof -
  let ?h = "[''name'' \<mapsto> ''Ann'', ''email'' \<mapsto> ''ann@x.com'']"
  have p: "map_of [(''user:ann@x.com'', ?h)] (''user:'' @ ''ann@x.com'') = Some ?h"
    by simp
  have d: "dom ?h \<subseteq> {''name'', ''email''}"
    by simp
  from update_overwrites [OF p d, of "''Anna''" "''anna@x.com''"] p d show ?thesis
    by blast
qed

text \<open>
  As first stated, for every state in which the key exists, the property fails: \<open>HSET\<close>
  writes the two fields of the body and leaves any other field of the stored hash in
  place. A record with a third field \<open>age\<close> keeps it through the update.
\<close>

theorem update_keeps_other_fields:
  "map_of (snd (update_user
        [(''user:ann@x.com'', [''name'' \<mapsto> ''Ann'', ''email'' \<mapsto> ''ann@x.com'', ''age'' \<mapsto> ''37''])]
        ''ann@x.com'' \<lparr>name = ''Anna'', email = ''anna@x.com''\<rparr>)) ''user:ann@x.com''
     \<noteq> Some [''name'' \<mapsto> ''Anna'', ''email'' \<mapsto> ''anna@x.com'']"
  by (auto simp: Let_def update_user_def redis_hset_def redis_hgetall_def redis_exists_def
        dest: fun_cong [of _ _ "''age''"])

text \<open>
  Claim C6. For every email \<open>e\<close> whose key is absent, after creating \<open>(n, e)\<close> and then
  updating on path email \<open>e\<close> with body \<open>(n', e)\<close>, getting \<open>e\<close> returns a field map whose
  \<open>name\<close> field is \<open>n'\<close>.
\<close>

theorem create_update_get:
  assumes "map_of s (''user:'' @ e) = None"
  shows "\<exists>h. fst (get_user (snd (update_user (snd (create_user s \<lparr>name = n, email = e\<rparr>)) e
                 \<lparr>name = n', email = e\<rparr>)) e) = Inr h \<and> h ''name'' = Some n'"
  using assms
  by (simp add: Let_def create_user_def update_user_def get_user_def map_of_redis_hset redis_hgetall_def)

theorem create_update_get_witness:
  "map_of [] (''user:'' @ ''ann@x.com'') = None
   \<and> (\<exists>h. fst (get_user (snd (update_user (snd (create_user [] \<lparr>name = ''Ann'', email = ''ann@x.com''\<rparr>))
          ''ann@x.com'' \<lparr>name = ''Anna'', email = ''ann@x.com''\<rparr>)) ''ann@x.com'') = Inr h
        \<and> h ''name'' = Some ''Anna'')"
  using create_update_get [of "[]" "''ann@x.com''" "''Ann''" "''Anna''"] by simp

text \<open>
  Claim C7. For every state and every email \<open>e\<close>, when creating a user with email \<open>e\<close>
  succeeds and deleting \<open>e\<close> then succeeds, a following get of \<open>e\<close> raises not-found.
\<close>

theorem create_delete_get:
  assumes "\<not> isl (fst (create_user s \<lparr>name = n, email = e\<rparr>))"
    and "\<not> isl (fst (delete_user (snd (create_user s \<lparr>name = n, email = e\<rparr>)) e))"
  shows "not_found (fst (get_user (snd (delete_user (snd (create_user s \<lparr>name = n, email = e\<rparr>)) e)) e))"
  by (simp add: Let_def not_found_def get_user_def delete_user_def redis_delete_def delete_conv'
        split: prod.split)

theorem create_delete_get_witness:
  "\<not> isl (fst (create_user [] \<lparr>name = ''Ann'', email = ''ann@x.com''\<rparr>))
   \<and> \<not> isl (fst (delete_user (snd (create_user [] \<lparr>name = ''Ann'', email = ''ann@x.com''\<rparr>)) ''ann@x.com''))
   \<and> not_found (fst (get_user (snd (delete_user (snd (create_user [] \<lparr>name = ''Ann'', email = ''ann@x.com''\<rparr>))
         ''ann@x.com'')) ''ann@x.com''))"
proof -
  have c: "\<not> isl (fst (create_user [] \<lparr>name = ''Ann'', email = ''ann@x.com''\<rparr>))"
    by (simp add: Let_def create_user_def)
  have d: "\<not> isl (fst (delete_user (snd (create_user [] \<lparr>name = ''Ann'', email = ''ann@x.com''\<rparr>)) ''ann@x.com''))"
    by (simp add: Let_def create_user_def delete_user_def redis_delete_def redis_hset_def
          redis_hgetall_def redis_exists_def)
  from create_delete_get [OF c d] c d show ?thesis
    by blast
qed

section \<open>Frame\<close>

text \<open>
  Claim C9. Create, update and delete change at most the one key \<open>user:e\<close> that the
  request names: the record of every other key is as before. The health check, get and
  list leave the whole store as it was.
\<close>

theorem other_keys_unchanged:
  "(key \<noteq> ''user:'' @ email usr \<longrightarrow> map_of (snd (create_user s usr)) key = map_of s key)
   \<and> (key \<noteq> ''user:'' @ e \<longrightarrow> map_of (snd (update_user s e usr)) key = map_of s key)
   \<and> (key \<noteq> ''user:'' @ e \<longrightarrow> map_of (snd (delete_user s e)) key = map_of s key)
   \<and> snd (read_root s) = s \<and> snd (get_user s e) = s \<and> snd (get_all_users s) = s"
  by (simp add: Let_def create_user_def update_user_def delete_user_def read_root_def get_user_def
        get_all_users_def map_of_redis_hset redis_delete_def delete_conv')

theorem other_keys_unchanged_witness:
  "''user:bob@x.com'' \<noteq> ''user:'' @ ''ann@x.com''
   \<and> map_of (snd (create_user [(''user:bob@x.com'', [''name'' \<mapsto> ''Bob'', ''email'' \<mapsto> ''bob@x.com''])]
         \<lparr>name = ''Ann'', email = ''ann@x.com''\<rparr>)) ''user:bob@x.com''
       = Some [''name'' \<mapsto> ''Bob'', ''email'' \<mapsto> ''bob@x.com'']
   \<and> map_of (snd (delete_user [(''user:bob@x.com'', [''name'' \<mapsto> ''Bob'', ''email'' \<mapsto> ''bob@x.com''])]
         ''ann@x.com'')) ''user:bob@x.com''
       = Some [''name'' \<mapsto> ''Bob'', ''email'' \<mapsto> ''bob@x.com'']"
proof -
  have k: "''user:bob@x.com'' \<noteq> ''user:'' @ ''ann@x.com''"
    by simp
  from k other_keys_unchanged [of "''user:bob@x.com''" "\<lparr>name = ''Ann'', email = ''ann@x.com''\<rparr>"
      "[(''user:bob@x.com'', [''name'' \<mapsto> ''Bob'', ''email'' \<mapsto> ''bob@x.com''])]" "''ann@x.com''"]
  show ?thesis
    by simp
qed

section \<open>Keys and email fields\<close>

lemma distinct_keys_handle: "distinct (map fst s) \<Longrightarrow> distinct (map fst (handle s req))"
  by (cases req)
     (simp_all add: Let_def read_root_def create_user_def get_user_def update_user_def
        delete_user_def get_all_users_def redis_hset_def redis_delete_def
        distinct_update distinct_delete)

lemma keyed_by_email_hset:
  "keyed_by_email s \<Longrightarrow> key = ''user:'' @ e
   \<Longrightarrow> keyed_by_email (redis_hset s key [''name'' \<mapsto> n, ''email'' \<mapsto> e])"
  unfolding keyed_by_email_def redis_hset_def
  by (rule list_all_update) simp_all

lemma keyed_by_email_handle:
  "same_email req \<Longrightarrow> keyed_by_email s \<Longrightarrow> keyed_by_email (handle s req)"
proof (cases req)
  case (Delete_user eml)
  assume "keyed_by_email s"
  then have "keyed_by_email (AList.delete (''user:'' @ eml) s)"
    unfolding keyed_by_email_def by (rule list_all_delete)
  with Delete_user show ?thesis
    by (simp add: Let_def delete_user_def redis_delete_def)
qed (simp_all add: Let_def read_root_def create_user_def get_user_def update_user_def
        get_all_users_def keyed_by_email_hset)

lemma run_invariant:
  "list_all same_email reqs \<Longrightarrow> distinct (map fst s) \<Longrightarrow> keyed_by_email s
   \<Longrightarrow> distinct (map fst (run s reqs)) \<and> keyed_by_email (run s reqs)"
  unfolding run_def
  by (induction reqs arbitrary: s) (simp_all add: distinct_keys_handle keyed_by_email_handle)

lemma keys_from_emails:
  "keyed_by_email s \<Longrightarrow> map ((@) ''user:'') (stored_emails s) = map fst s"
  unfolding keyed_by_email_def stored_emails_def
  by (induction s) (auto simp: map_filter_simps split: option.splits)

lemma keyed_one_record_per_email:
  assumes "distinct (map fst s)" and "keyed_by_email s"
  shows "one_record_per_email s"
proof -
  from assms have "distinct (map ((@) ''user:'') (stored_emails s))"
    by (simp add: keys_from_emails)
  then show ?thesis
    unfolding one_record_per_email_def by (simp add: distinct_map)
qed

text \<open>
  Claim C2, amended. In every store state reachable from the empty store through the six
  operations, as long as every update carries in its body the email of its path, each
  stored record lies under the key \<open>user:e\<close> where \<open>e\<close> is the value of the record's
  email field, and so at most one stored record exists per email value.
\<close>

theorem reachable_keyed_by_email:
  assumes "list_all same_email reqs"
  shows "keyed_by_email (run [] reqs) \<and> one_record_per_email (run [] reqs)"
proof -
  have "distinct (map fst (run [] reqs)) \<and> keyed_by_email (run [] reqs)"
    using assms by (intro run_invariant) (simp_all add: keyed_by_email_def)
  then show ?thesis
    by (simp add: keyed_one_record_per_email)
qed

theorem reachable_keyed_by_email_witness:
  "list_all same_email [Create_user \<lparr>name = ''Ann'', email = ''ann@x.com''\<rparr>,
       Update_user ''ann@x.com'' \<lparr>name = ''Anna'', email = ''ann@x.com''\<rparr>,
       Create_user \<lparr>name = ''Bob'', email = ''bob@x.com''\<rparr>]
   \<and> keyed_by_email (run [] [Create_user \<lparr>name = ''Ann'', email = ''ann@x.com''\<rparr>,
       Update_user ''ann@x.com'' \<lparr>name = ''Anna'', email = ''ann@x.com''\<rparr>,
       Create_user \<lparr>name = ''Bob'', email = ''bob@x.com''\<rparr>])
   \<and> one_record_per_email (run [] [Create_user \<lparr>name = ''Ann'', email = ''ann@x.com''\<rparr>,
       Update_user ''ann@x.com'' \<lparr>name = ''Anna'', email = ''ann@x.com''\<rparr>,
       Create_user \<lparr>name = ''Bob'', email = ''bob@x.com''\<rparr>])"
  using reachable_keyed_by_email [of "[Create_user \<lparr>name = ''Ann'', email = ''ann@x.com''\<rparr>,
       Update_user ''ann@x.com'' \<lparr>name = ''Anna'', email = ''ann@x.com''\<rparr>,
       Create_user \<lparr>name = ''Bob'', email = ''bob@x.com''\<rparr>]"]
  by simp

text \<open>
  Without the condition on updates the invariant fails. \<open>update_user\<close> takes the key from
  the path and the \<open>email\<close> field from the body: after creating \<open>ann@x.com\<close>, updating
  that path with the body email \<open>bob@x.com\<close> and creating \<open>bob@x.com\<close>, the record under
  \<open>user:ann@x.com\<close> has the email field \<open>bob@x.com\<close>, and so has the record under
  \<open>user:bob@x.com\<close>.
\<close>

theorem update_breaks_keying:
  "\<not> keyed_by_email (run [] [Create_user \<lparr>name = ''Ann'', email = ''ann@x.com''\<rparr>,
       Update_user ''ann@x.com'' \<lparr>name = ''Ann'', email = ''bob@x.com''\<rparr>,
       Create_user \<lparr>name = ''Bob'', email = ''bob@x.com''\<rparr>])
   \<and> \<not> one_record_per_email (run [] [Create_user \<lparr>name = ''Ann'', email = ''ann@x.com''\<rparr>,
       Update_user ''ann@x.com'' \<lparr>name = ''Ann'', email = ''bob@x.com''\<rparr>,
       Create_user \<lparr>name = ''Bob'', email = ''bob@x.com''\<rparr>])"
  by (simp add: run_def Let_def create_user_def update_user_def redis_hset_def redis_hgetall_def
        redis_exists_def keyed_by_email_def one_record_per_email_def stored_emails_def)

section \<open>Listing\<close>

lemma create_users_fresh:
  assumes "distinct (map email usrs)"
    and "\<forall>usr \<in> set usrs. map_of s (''user:'' @ email usr) = None"
  shows "create_users s usrs =
           (map (\<lambda>usr. Inr [''message'' \<mapsto> ''User created successfully'']) usrs,
            s @ map (\<lambda>usr. (''user:'' @ email usr, field_map usr)) usrs)"
  using assms
proof (induction usrs arbitrary: s)
  case Nil
  then show ?case by simp
next
  case (Cons usr usrs)
  let ?s' = "s @ [(''user:'' @ email usr, field_map usr)]"
  from Cons.prems
  have step: "create_user s usr = (Inr [''message'' \<mapsto> ''User created successfully''], ?s')"
    by (simp add: create_user_def Let_def redis_hset_absent field_map_def)
  have "\<forall>u \<in> set usrs. map_of ?s' (''user:'' @ email u) = None"
  proof
    fix u assume u: "u \<in> set usrs"
    from Cons.prems have "email usr \<notin> email ` set usrs"
      by simp
    with u have "email u \<noteq> email usr"
      by (metis imageI)
    moreover from Cons.prems u have "map_of s (''user:'' @ email u) = None"
      by simp
    ultimately show "map_of ?s' (''user:'' @ email u) = None"
      by (simp add: map_add_def)
  qed
  moreover from Cons.prems have "distinct (map email usrs)"
    by simp
  ultimately have "create_users ?s' usrs =
      (map (\<lambda>usr. Inr [''message'' \<mapsto> ''User created successfully'']) usrs,
       ?s' @ map (\<lambda>usr. (''user:'' @ email usr, field_map usr)) usrs)"
    by (intro Cons.IH)
  with step show ?case
    by (simp del: fun_upd_apply)
qed

lemma keys_of_created:
  "filter (stringmatch ''user:*'') (map fst (map (\<lambda>usr. (''user:'' @ email usr, field_map usr)) usrs))
     = map (\<lambda>usr. ''user:'' @ email usr) usrs"
proof -
  have "\<And>usr. stringmatch ''user:*'' (''user:'' @ email usr)"
    unfolding stringmatch_user by blast
  then show ?thesis
    by (induction usrs) simp_all
qed

lemma hgetall_created:
  assumes "distinct (map email usrs)" and "usr \<in> set usrs"
    and "map_of s (''user:'' @ email usr) = None"
  shows "redis_hgetall (s @ map (\<lambda>usr. (''user:'' @ email usr, field_map usr)) usrs) (''user:'' @ email usr)
           = field_map usr"
proof -
  let ?new = "map (\<lambda>usr. (''user:'' @ email usr, field_map usr)) usrs"
  have "map fst ?new = map ((@) ''user:'') (map email usrs)"
    by simp
  with assms(1) have "distinct (map fst ?new)"
    by (simp only: distinct_map) (simp add: inj_on_def)
  moreover from assms(2) have "(''user:'' @ email usr, field_map usr) \<in> set ?new"
    by auto
  ultimately have "map_of ?new (''user:'' @ email usr) = Some (field_map usr)"
    by (rule map_of_is_SomeI)
  with assms(3) show ?thesis
    by (simp add: redis_hgetall_def map_add_def)
qed

text \<open>
  Claim C8. From a store with no key matching \<^verbatim>\<open>user:*\<close>, creating \<open>N\<close> users with
  pairwise distinct emails succeeds \<open>N\<close> times, and listing the users then returns exactly
  \<open>N\<close> entries, the field map of each created user once, in some order. Listing on a
  store with no matching key returns the empty list and no error.
\<close>

theorem list_after_creates:
  assumes "redis_keys s ''user:*'' = []" and "distinct (map email usrs)"
  shows "fst (create_users s usrs) = map (\<lambda>usr. Inr [''message'' \<mapsto> ''User created successfully'']) usrs
       \<and> (\<exists>users. fst (get_all_users (snd (create_users s usrs))) = Inr users
             \<and> length users = length usrs \<and> mset users = mset (map field_map usrs))
       \<and> fst (get_all_users s) = Inr []"
proof -
  let ?new = "map (\<lambda>usr. (''user:'' @ email usr, field_map usr)) usrs"
  have absent: "\<forall>usr \<in> set usrs. map_of s (''user:'' @ email usr) = None"
    using no_user_keys_absent [OF assms(1)] by blast
  with assms(2) have created: "create_users s usrs =
      (map (\<lambda>usr. Inr [''message'' \<mapsto> ''User created successfully'']) usrs, s @ ?new)"
    by (rule create_users_fresh)
  have "redis_keys (s @ ?new) ''user:*'' = map (\<lambda>usr. ''user:'' @ email usr) usrs"
    using assms(1) keys_of_created [of usrs] by (simp add: redis_keys_def)
  then have "fst (get_all_users (s @ ?new))
      = Inr (map (\<lambda>usr. redis_hgetall (s @ ?new) (''user:'' @ email usr)) usrs)"
    by (simp add: get_all_users_def collect_users_map comp_def)
  also have "map (\<lambda>usr. redis_hgetall (s @ ?new) (''user:'' @ email usr)) usrs = map field_map usrs"
    using assms(2) absent by (intro map_cong refl hgetall_created) simp_all
  finally have "fst (get_all_users (snd (create_users s usrs))) = Inr (map field_map usrs)"
    by (simp add: created)
  moreover have "fst (get_all_users s) = Inr []"
    using assms(1) by (simp add: get_all_users_def)
  ultimately show ?thesis
    by (simp add: created)
qed

theorem list_after_creates_witness:
  "redis_keys [(''session:1'', [''id'' \<mapsto> ''1''])] ''user:*'' = []
   \<and> distinct (map email [\<lparr>name = ''Ann'', email = ''ann@x.com''\<rparr>, \<lparr>name = ''Bob'', email = ''bob@x.com''\<rparr>])
   \<and> (\<exists>users. fst (get_all_users (snd (create_users [(''session:1'', [''id'' \<mapsto> ''1''])]
          [\<lparr>name = ''Ann'', email = ''ann@x.com''\<rparr>, \<lparr>name = ''Bob'', email = ''bob@x.com''\<rparr>]))) = Inr users
        \<and> length users = 2)"
proof -
  have k: "redis_keys [(''session:1'', [''id'' \<mapsto> ''1''])] ''user:*'' = []"
    by (simp add: redis_keys_def)
  have d: "distinct (map email [\<lparr>name = ''Ann'', email = ''ann@x.com''\<rparr>, \<lparr>name = ''Bob'', email = ''bob@x.com''\<rparr>])"
    by simp
  from list_after_creates [OF k d] k d show ?thesis
    by auto
qed

end
